theory Spec2Isabelle
  imports Main
begin

section \<open>The state-machine registry of pewpi-shared (machines/adapter.js)\<close>

text \<open>
  The class \<open>MachineAdapter\<close> keeps three JavaScript maps, all keyed by the machine
  identifier: \<open>machines\<close>, \<open>transitions\<close> and \<open>stateCallbacks\<close>. Every method is
  embedded as a function that takes the adapter and returns the adapter it leaves behind.
  A \<open>throw\<close> is the left injection of a sum.

  Conventions of the embedding:
  \<^item> a plain JavaScript object is a map from property names to values; the values a caller
    stores in a context or sends as a payload are of an arbitrary type \<open>'v\<close>;
  \<^item> a payload of \<open>null\<close> (the default of \<open>send\<close>) is \<open>None\<close>;
  \<^item> \<open>Date.now()\<close> is an argument \<open>now\<close> of the methods that read the clock;
  \<^item> the inner \<open>Map\<close> of one machine's transitions is an association list in insertion
    order, since \<open>reset\<close> reads its first key;
  \<^item> a transition handler is a pure function of the context and the payload, \<open>None\<close>
    when the call throws;
  \<^item> a listener has an identity (JavaScript compares functions by identity in
    \<open>indexOf\<close>) and a behaviour on the surroundings \<open>'w\<close> of the adapter, which says
    whether the call threw; listeners and handlers do not call back into the adapter;
  \<^item> what the adapter does to its surroundings is recorded in three more fields of the
    state: \<open>world\<close>, the sequence \<open>calls\<close> of listener invocations, and \<open>console\<close>.
\<close>

subsection \<open>Data\<close>

type_synonym 'v obj = "string \<rightharpoonup> 'v"

datatype 'v jsval = JStr string | JObj "'v obj" | JVal 'v | JNull

type_synonym 'v changeData = "string \<rightharpoonup> 'v jsval"

text \<open>What a handler returns: \<open>{state, context, data}\<close>, each of them optional.\<close>

record 'v handler_result =
  r_state :: "string option"
  r_context :: "'v obj option"
  r_data :: "'v changeData option"

datatype 'v transition =
    Target string
  | Handler "'v obj \<Rightarrow> 'v option \<Rightarrow> 'v handler_result option"

record 'v history_entry =
  fromState :: string
  toState :: string
  event :: string
  payload :: "'v option"
  timestamp :: nat

text \<open>The field \<open>id\<close> is \<open>machineId\<close> and \<open>context\<close> is \<open>ctx\<close> here.\<close>

record 'v machine =
  machineId :: string
  currentState :: string
  states :: "'v obj"
  ctx :: "'v obj"
  history :: "'v history_entry list"
  created :: nat

record ('v, 'w) listener =
  lid :: nat
  lrun :: "'v changeData \<Rightarrow> 'w \<Rightarrow> bool \<times> 'w"

datatype log_entry = Warn string | Error string

datatype error = NotRegistered string | NotFound string | HandlerThrew | TypeError

type_synonym 'v table = "(string \<times> 'v transition) list"

record ('v, 'w) adapter =
  machines :: "string \<rightharpoonup> 'v machine"
  transitions :: "string \<rightharpoonup> 'v table"
  stateCallbacks :: "string \<rightharpoonup> ('v, 'w) listener list"
  world :: 'w
  calls :: "(string \<times> nat \<times> 'v changeData) list"
  console :: "log_entry list"

text \<open>
  The argument \<open>config\<close> of \<open>registerMachine\<close>. \<open>cfg_transitions\<close> is the nested object
  as \<open>Object.entries\<close> enumerates it.
\<close>

record 'v config =
  initialState :: "string option"
  cfg_states :: "'v obj option"
  cfg_context :: "'v obj option"
  cfg_transitions :: "(string \<times> (string \<times> 'v transition) list) list option"

record 'v send_result =
  success :: bool
  res_fromState :: string
  res_toState :: string
  res_event :: string
  res_context :: "'v obj option"

subsection \<open>JavaScript primitives\<close>

text \<open>\<open>Map.prototype.set\<close>: an existing key keeps its place, a new key goes last.\<close>

fun table_set :: "string \<Rightarrow> 'a \<Rightarrow> (string \<times> 'a) list \<Rightarrow> (string \<times> 'a) list" where
  "table_set k v [] = [(k, v)]"
| "table_set k v ((k', v') # kvs) =
     (if k = k' then (k, v) # kvs else (k', v') # table_set k v kvs)"

definition table_get :: "(string \<times> 'a) list \<Rightarrow> string \<Rightarrow> 'a option" where
  "table_get tbl k = map_of tbl k"

text \<open>The template string \<open>`${fromState}:${event}`\<close>.\<close>

definition key_of :: "string \<Rightarrow> string \<Rightarrow> string" where
  "key_of from ev = from @ '':'' @ ev"

text \<open>\<open>key.split(':')[0]\<close>: the part of the key before its first colon.\<close>

definition split_first :: "string \<Rightarrow> string" where
  "split_first key = takeWhile (\<lambda>c. c \<noteq> CHR '':'') key"

text \<open>
  \<open>Array.prototype.slice(start)\<close>: a negative start counts from the end, and the start
  is clamped to the array.
\<close>

definition slice :: "int \<Rightarrow> 'a list \<Rightarrow> 'a list" where
  "slice start xs =
     (let len = int (length xs);
          k = (if start < 0 then max (len + start) 0 else min start len)
      in drop (nat k) xs)"

text \<open>\<open>!transition\<close> is true of a missing entry and of the empty string.\<close>

definition truthy :: "'v transition \<Rightarrow> bool" where
  "truthy t = (case t of Target to \<Rightarrow> to \<noteq> [] | Handler h \<Rightarrow> True)"

text \<open>\<open>x || d\<close> on an optional string: \<open>undefined\<close> and the empty string give \<open>d\<close>.\<close>

definition or_else :: "string option \<Rightarrow> string \<Rightarrow> string" where
  "or_else x d = (case x of None \<Rightarrow> d | Some v \<Rightarrow> if v = [] then d else v)"

subsection \<open>The methods\<close>

definition new_adapter :: "'w \<Rightarrow> ('v, 'w) adapter" where
  "new_adapter w =
     \<lparr>machines = Map.empty, transitions = Map.empty, stateCallbacks = Map.empty,
      world = w, calls = [], console = []\<rparr>"

definition registerTransition ::
  "string \<Rightarrow> string \<Rightarrow> string \<Rightarrow> 'v transition \<Rightarrow> ('v, 'w) adapter \<Rightarrow> error + ('v, 'w) adapter" where
  "registerTransition mid from ev toStateOrHandler s =
     (case transitions s mid of
        None \<Rightarrow> Inl (NotRegistered mid)
      | Some machineTransitions \<Rightarrow>
          Inr (s\<lparr>transitions := (transitions s)
                 (mid \<mapsto> table_set (key_of from ev) toStateOrHandler machineTransitions)\<rparr>))"

text \<open>The two nested \<open>forEach\<close> iterations of \<open>registerMachine\<close>.\<close>

fun register_events ::
  "string \<Rightarrow> string \<Rightarrow> (string \<times> 'v transition) list \<Rightarrow> ('v, 'w) adapter \<Rightarrow> error + ('v, 'w) adapter" where
  "register_events mid from [] s = Inr s"
| "register_events mid from ((ev, to) # rest) s =
     (case registerTransition mid from ev to s of
        Inl e \<Rightarrow> Inl e
      | Inr s' \<Rightarrow> register_events mid from rest s')"

fun register_all ::
  "string \<Rightarrow> (string \<times> (string \<times> 'v transition) list) list \<Rightarrow> ('v, 'w) adapter
     \<Rightarrow> error + ('v, 'w) adapter" where
  "register_all mid [] s = Inr s"
| "register_all mid ((from, ts) # rest) s =
     (case register_events mid from ts s of
        Inl e \<Rightarrow> Inl e
      | Inr s' \<Rightarrow> register_all mid rest s')"

definition new_machine :: "string \<Rightarrow> 'v config \<Rightarrow> nat \<Rightarrow> 'v machine" where
  "new_machine mid config now =
     \<lparr>machineId = mid,
      currentState = or_else (initialState config) ''idle'',
      states = (case cfg_states config of None \<Rightarrow> Map.empty | Some st \<Rightarrow> st),
      ctx = (case cfg_context config of None \<Rightarrow> Map.empty | Some c \<Rightarrow> c),
      history = [],
      created = now\<rparr>"

definition registerMachine ::
  "string \<Rightarrow> 'v config \<Rightarrow> nat \<Rightarrow> ('v, 'w) adapter \<Rightarrow> error + ('v machine \<times> ('v, 'w) adapter)" where
  "registerMachine mid config now s =
     (let s1 = (if machines s mid \<noteq> None
                then s\<lparr>console := console s @
                       [Warn (''Machine '' @ mid @ '' already registered, overwriting'')]\<rparr>
                else s);
          machine = new_machine mid config now;
          s2 = s1\<lparr>machines := (machines s1)(mid \<mapsto> machine),
                  transitions := (transitions s1)(mid \<mapsto> []),
                  stateCallbacks := (stateCallbacks s1)(mid \<mapsto> [])\<rparr>
      in case cfg_transitions config of
           None \<Rightarrow> Inr (machine, s2)
         | Some ts \<Rightarrow>
             (case register_all mid ts s2 of
                Inl e \<Rightarrow> Inl e
              | Inr s3 \<Rightarrow> Inr (machine, s3)))"

text \<open>\<open>_notifyStateChange\<close>: \<open>forEach\<close> over the callbacks, each call in a \<open>try\<close>.\<close>

fun notify_each ::
  "string \<Rightarrow> 'v changeData \<Rightarrow> ('v, 'w) listener list \<Rightarrow> ('v, 'w) adapter \<Rightarrow> ('v, 'w) adapter" where
  "notify_each mid changeData [] s = s"
| "notify_each mid changeData (callback # rest) s =
     (case lrun callback changeData (world s) of
        (threw, w') \<Rightarrow>
          (let s1 = s\<lparr>world := w', calls := calls s @ [(mid, lid callback, changeData)]\<rparr>;
               s2 = (if threw
                     then s1\<lparr>console := console s1 @
                            [Error (''Error in state change callback for '' @ mid @ '':'')]\<rparr>
                     else s1)
           in notify_each mid changeData rest s2))"

definition notifyStateChange ::
  "string \<Rightarrow> 'v changeData \<Rightarrow> ('v, 'w) adapter \<Rightarrow> ('v, 'w) adapter" where
  "notifyStateChange mid changeData s =
     (case stateCallbacks s mid of
        None \<Rightarrow> s
      | Some callbacks \<Rightarrow> notify_each mid changeData callbacks s)"

text \<open>
  The branch of \<open>send\<close> on the kind of transition: the target state, the data for the
  listeners and the context afterwards; \<open>None\<close> when the handler throws.
\<close>

definition resolve ::
  "'v transition \<Rightarrow> 'v machine \<Rightarrow> 'v option \<Rightarrow> (string \<times> 'v changeData \<times> 'v obj) option" where
  "resolve transition machine pl =
     (case transition of
        Handler h \<Rightarrow>
          (case h (ctx machine) pl of
             None \<Rightarrow> None
           | Some result \<Rightarrow>
               Some (or_else (r_state result) (currentState machine),
                     (case r_data result of None \<Rightarrow> Map.empty | Some d \<Rightarrow> d),
                     (case r_context result of
                        None \<Rightarrow> ctx machine
                      | Some c \<Rightarrow> ctx machine ++ c)))
      | Target to \<Rightarrow> Some (to, Map.empty, ctx machine))"

definition change_data ::
  "string \<Rightarrow> string \<Rightarrow> string \<Rightarrow> 'v option \<Rightarrow> 'v obj \<Rightarrow> 'v changeData \<Rightarrow> 'v changeData" where
  "change_data from to ev pl context transitionData =
     [''fromState'' \<mapsto> JStr from, ''toState'' \<mapsto> JStr to, ''event'' \<mapsto> JStr ev,
      ''payload'' \<mapsto> (case pl of None \<Rightarrow> JNull | Some p \<Rightarrow> JVal p),
      ''context'' \<mapsto> JObj context] ++ transitionData"

text \<open>The early return of \<open>send\<close> when no transition is found: a warning and a result.\<close>

definition no_transition ::
  "string \<Rightarrow> string \<Rightarrow> 'v machine \<Rightarrow> ('v, 'w) adapter
     \<Rightarrow> error + ('v send_result \<times> ('v, 'w) adapter)" where
  "no_transition mid ev machine s =
     Inr (\<lparr>success = False, res_fromState = currentState machine,
           res_toState = currentState machine, res_event = ev, res_context = None\<rparr>,
          s\<lparr>console := console s @
              [Warn (''No transition for '' @ mid @ '' from '' @ currentState machine @
                     '' on '' @ ev)]\<rparr>)"

definition send ::
  "string \<Rightarrow> string \<Rightarrow> 'v option \<Rightarrow> nat \<Rightarrow> ('v, 'w) adapter
     \<Rightarrow> error + ('v send_result \<times> ('v, 'w) adapter)" where
  "send mid ev pl now s =
     (case machines s mid of
        None \<Rightarrow> Inl (NotFound mid)
      | Some machine \<Rightarrow>
          (case transitions s mid of
             None \<Rightarrow> Inl TypeError
           | Some machineTransitions \<Rightarrow>
               (case table_get machineTransitions (key_of (currentState machine) ev) of
                  None \<Rightarrow> no_transition mid ev machine s
                | Some transition \<Rightarrow>
                    if \<not> truthy transition then no_transition mid ev machine s
                    else
                      (case resolve transition machine pl of
                         None \<Rightarrow> Inl HandlerThrew
                       | Some (to, transitionData, context') \<Rightarrow>
                           (let from = currentState machine;
                                pushed = history machine @
                                  [\<lparr>fromState = from, toState = to, event = ev,
                                    payload = pl, timestamp = now\<rparr>];
                                limited = (if length pushed > 100
                                           then slice (- 100) pushed else pushed);
                                machine' = machine\<lparr>currentState := to, ctx := context',
                                                   history := limited\<rparr>;
                                s1 = s\<lparr>machines := (machines s)(mid \<mapsto> machine')\<rparr>;
                                s2 = notifyStateChange mid
                                       (change_data from to ev pl context' transitionData) s1
                            in Inr (\<lparr>success = True, res_fromState = from,
                                     res_toState = to, res_event = ev,
                                     res_context = Some context'\<rparr>, s2))))))"

definition getState :: "string \<Rightarrow> ('v, 'w) adapter \<Rightarrow> string option" where
  "getState mid s = (case machines s mid of None \<Rightarrow> None | Some machine \<Rightarrow> Some (currentState machine))"

definition getContext :: "string \<Rightarrow> ('v, 'w) adapter \<Rightarrow> 'v obj option" where
  "getContext mid s = (case machines s mid of None \<Rightarrow> None | Some machine \<Rightarrow> Some (ctx machine))"

definition updateContext :: "string \<Rightarrow> 'v obj \<Rightarrow> ('v, 'w) adapter \<Rightarrow> ('v, 'w) adapter" where
  "updateContext mid updates s =
     (case machines s mid of
        None \<Rightarrow> s
      | Some machine \<Rightarrow>
          s\<lparr>machines := (machines s)(mid \<mapsto> machine\<lparr>ctx := ctx machine ++ updates\<rparr>)\<rparr>)"

definition isInState :: "string \<Rightarrow> string \<Rightarrow> ('v, 'w) adapter \<Rightarrow> bool" where
  "isInState mid st s =
     (case machines s mid of None \<Rightarrow> False | Some machine \<Rightarrow> currentState machine = st)"

text \<open>\<open>getHistory(machineId, limit = 10)\<close>: \<open>None\<close> is the omitted argument.\<close>

definition getHistory ::
  "string \<Rightarrow> int option \<Rightarrow> ('v, 'w) adapter \<Rightarrow> 'v history_entry list" where
  "getHistory mid limit s =
     (case machines s mid of
        None \<Rightarrow> []
      | Some machine \<Rightarrow>
          slice (- (case limit of None \<Rightarrow> 10 | Some l \<Rightarrow> l)) (history machine))"

definition onStateChange ::
  "string \<Rightarrow> ('v, 'w) listener \<Rightarrow> ('v, 'w) adapter \<Rightarrow> ('v, 'w) adapter" where
  "onStateChange mid callback s =
     (case stateCallbacks s mid of
        None \<Rightarrow> s
      | Some callbacks \<Rightarrow>
          s\<lparr>stateCallbacks := (stateCallbacks s)(mid \<mapsto> callbacks @ [callback])\<rparr>)"

text \<open>\<open>indexOf\<close> and \<open>splice(index, 1)\<close>: the first callback of that identity goes.\<close>

fun remove_first :: "nat \<Rightarrow> ('v, 'w) listener list \<Rightarrow> ('v, 'w) listener list" where
  "remove_first i [] = []"
| "remove_first i (c # cs) = (if lid c = i then cs else c # remove_first i cs)"

definition offStateChange ::
  "string \<Rightarrow> ('v, 'w) listener \<Rightarrow> ('v, 'w) adapter \<Rightarrow> ('v, 'w) adapter" where
  "offStateChange mid callback s =
     (case stateCallbacks s mid of
        None \<Rightarrow> s
      | Some callbacks \<Rightarrow>
          s\<lparr>stateCallbacks := (stateCallbacks s)(mid \<mapsto> remove_first (lid callback) callbacks)\<rparr>)"

text \<open>
  \<open>reset\<close>: the iteration over \<open>machineTransitions.keys()\<close> breaks after its first
  key.
\<close>

definition first_state :: "'v table option \<Rightarrow> string" where
  "first_state machineTransitions =
     (case machineTransitions of
        None \<Rightarrow> ''idle''
      | Some [] \<Rightarrow> ''idle''
      | Some ((key, t) # rest) \<Rightarrow> split_first key)"

definition reset :: "string \<Rightarrow> bool \<Rightarrow> ('v, 'w) adapter \<Rightarrow> ('v, 'w) adapter" where
  "reset mid clearHistory s =
     (case machines s mid of
        None \<Rightarrow> s
      | Some machine \<Rightarrow>
          (let m1 = machine\<lparr>currentState := first_state (transitions s mid), ctx := Map.empty\<rparr>;
               m2 = (if clearHistory then m1\<lparr>history := []\<rparr> else m1)
           in s\<lparr>machines := (machines s)(mid \<mapsto> m2)\<rparr>))"

definition unregisterMachine :: "string \<Rightarrow> ('v, 'w) adapter \<Rightarrow> ('v, 'w) adapter" where
  "unregisterMachine mid s =
     s\<lparr>machines := (machines s)(mid := None),
       transitions := (transitions s)(mid := None),
       stateCallbacks := (stateCallbacks s)(mid := None)\<rparr>"

subsection \<open>Sequences of calls\<close>

text \<open>
  A caller's use of the adapter is a sequence of calls of its state-changing methods.
  A call that throws leaves the adapter as it was: every \<open>throw\<close> of the class comes
  before the first assignment of its method.
\<close>

datatype ('v, 'w) op =
    RegisterMachine string "'v config" nat
  | RegisterTransition string string string "'v transition"
  | Send string string "'v option" nat
  | UpdateContext string "'v obj"
  | OnStateChange string "('v, 'w) listener"
  | OffStateChange string "('v, 'w) listener"
  | Reset string bool
  | UnregisterMachine string

fun exec :: "('v, 'w) op \<Rightarrow> ('v, 'w) adapter \<Rightarrow> ('v, 'w) adapter" where
  "exec (RegisterMachine mid config now) s =
     (case registerMachine mid config now s of Inl e \<Rightarrow> s | Inr (m, s') \<Rightarrow> s')"
| "exec (RegisterTransition mid from ev t) s =
     (case registerTransition mid from ev t s of Inl e \<Rightarrow> s | Inr s' \<Rightarrow> s')"
| "exec (Send mid ev pl now) s =
     (case send mid ev pl now s of Inl e \<Rightarrow> s | Inr (r, s') \<Rightarrow> s')"
| "exec (UpdateContext mid updates) s = updateContext mid updates s"
| "exec (OnStateChange mid callback) s = onStateChange mid callback s"
| "exec (OffStateChange mid callback) s = offStateChange mid callback s"
| "exec (Reset mid clearHistory) s = reset mid clearHistory s"
| "exec (UnregisterMachine mid) s = unregisterMachine mid s"

fun run :: "('v, 'w) op list \<Rightarrow> ('v, 'w) adapter \<Rightarrow> ('v, 'w) adapter" where
  "run [] s = s"
| "run (c # cs) s = run cs (exec c s)"

text \<open>How often the listener of identity \<open>i\<close> was called for machine \<open>mid\<close>.\<close>

definition call_count :: "string \<Rightarrow> nat \<Rightarrow> ('v, 'w) adapter \<Rightarrow> nat" where
  "call_count mid i s = length (filter (\<lambda>c. fst c = mid \<and> fst (snd c) = i) (calls s))"

subsection \<open>Notions used in the statements\<close>

text \<open>The callbacks of a machine, none for an unknown identifier.\<close>

definition callbacks_of :: "string \<Rightarrow> ('v, 'w) adapter \<Rightarrow> ('v, 'w) listener list" where
  "callbacks_of mid s = (case stateCallbacks s mid of None \<Rightarrow> [] | Some cbs \<Rightarrow> cbs)"

text \<open>The table that \<open>registerMachine\<close> builds from a configuration.\<close>

definition table_events :: "string \<Rightarrow> (string \<times> 'v transition) list \<Rightarrow> 'v table \<Rightarrow> 'v table" where
  "table_events from ts tbl = fold (\<lambda>(ev, to). table_set (key_of from ev) to) ts tbl"

definition table_all ::
  "(string \<times> (string \<times> 'v transition) list) list \<Rightarrow> 'v table \<Rightarrow> 'v table" where
  "table_all cfg tbl = fold (\<lambda>(from, ts). table_events from ts) cfg tbl"

definition config_table :: "'v config \<Rightarrow> 'v table" where
  "config_table config =
     (case cfg_transitions config of None \<Rightarrow> [] | Some ts \<Rightarrow> table_all ts [])"

text \<open>
  The identities of the listeners that throw when the callbacks run one after the other,
  starting in world \<open>w\<close>.
\<close>

fun thrown :: "'v changeData \<Rightarrow> ('v, 'w) listener list \<Rightarrow> 'w \<Rightarrow> nat list" where
  "thrown cd [] w = []"
| "thrown cd (c # cs) w =
     (case lrun c cd w of (threw, w') \<Rightarrow> (if threw then [lid c] else []) @ thrown cd cs w')"

text \<open>The bound on every history.\<close>

definition hist_ok :: "('v, 'w) adapter \<Rightarrow> bool" where
  "hist_ok s = (\<forall>mid m. machines s mid = Some m \<longrightarrow> length (history m) \<le> 100)"

text \<open>No callback of machine \<open>mid\<close> has the identity \<open>i\<close>.\<close>

definition not_listening :: "string \<Rightarrow> nat \<Rightarrow> ('v, 'w) adapter \<Rightarrow> bool" where
  "not_listening mid i s = (i \<notin> lid ` set (callbacks_of mid s))"

text \<open>The three maps of the adapter have the same keys.\<close>

definition consistent :: "('v, 'w) adapter \<Rightarrow> bool" where
  "consistent s =
     (dom (transitions s) = dom (machines s) \<and> dom (stateCallbacks s) = dom (machines s))"

subsection \<open>A concrete adapter: the turnstile\<close>

text \<open>
  The turnstile has two listeners on a world that is a counter: the first adds one and
  throws, the second adds ten and returns.
\<close>

definition thrower :: "(nat, nat) listener" where
  "thrower = \<lparr>lid = 1, lrun = (\<lambda>cd w. (True, w + 1))\<rparr>"

definition counter :: "(nat, nat) listener" where
  "counter = \<lparr>lid = 2, lrun = (\<lambda>cd w. (False, w + 10))\<rparr>"

definition turnstile_config :: "nat config" where
  "turnstile_config =
     \<lparr>initialState = Some ''locked'', cfg_states = None, cfg_context = None,
      cfg_transitions = Some [(''locked'', [(''COIN'', Target ''unlocked'')]),
                              (''unlocked'', [(''PUSH'', Target ''locked'')])]\<rparr>"

definition turnstile_machine :: "nat machine" where
  "turnstile_machine =
     \<lparr>machineId = ''turnstile'', currentState = ''locked'', states = Map.empty,
      ctx = Map.empty, history = [], created = 0\<rparr>"

definition turnstile_table :: "nat table" where
  "turnstile_table =
     [(''locked:COIN'', Target ''unlocked''), (''unlocked:PUSH'', Target ''locked'')]"

definition turnstile :: "(nat, nat) adapter" where
  "turnstile =
     \<lparr>machines = [''turnstile'' \<mapsto> turnstile_machine],
      transitions = [''turnstile'' \<mapsto> turnstile_table],
      stateCallbacks = [''turnstile'' \<mapsto> [thrower, counter]],
      world = 0, calls = [], console = []\<rparr>"

text \<open>The turnstile after a hundred earlier transitions.\<close>

definition old_entry :: "nat history_entry" where
  "old_entry = \<lparr>fromState = ''unlocked'', toState = ''locked'', event = ''PUSH'',
               payload = None, timestamp = 1\<rparr>"

definition busy_machine :: "nat machine" where
  "busy_machine = turnstile_machine\<lparr>history := replicate 100 old_entry\<rparr>"

definition busy :: "(nat, nat) adapter" where
  "busy = turnstile\<lparr>machines := [''turnstile'' \<mapsto> busy_machine]\<rparr>"

text \<open>A second configuration, with states and a context of its own.\<close>

definition gate_config :: "nat config" where
  "gate_config =
     \<lparr>initialState = Some ''open'',
      cfg_states = Some [''open'' \<mapsto> 0, ''closed'' \<mapsto> 1],
      cfg_context = Some [''count'' \<mapsto> 3],
      cfg_transitions = Some [(''open'', [(''CLOSE'', Target ''closed'')])]\<rparr>"

subsection \<open>A concrete adapter with handlers: the checkout\<close>

text \<open>
  \<open>PAY\<close> goes to \<open>paid\<close> when the amount in the payload is positive and stays in \<open>cart\<close>
  otherwise; \<open>NOTE\<close> returns only a context patch.
\<close>

definition pay_handler :: "nat obj \<Rightarrow> nat option \<Rightarrow> nat handler_result option" where
  "pay_handler c pl =
     Some \<lparr>r_state = Some (if (case pl of None \<Rightarrow> 0 | Some amount \<Rightarrow> amount) > 0
                           then ''paid'' else ''cart''),
           r_context = None, r_data = None\<rparr>"

definition note_handler :: "nat obj \<Rightarrow> nat option \<Rightarrow> nat handler_result option" where
  "note_handler c pl = Some \<lparr>r_state = None, r_context = Some [''a'' \<mapsto> 1], r_data = None\<rparr>"

definition checkout_machine :: "nat machine" where
  "checkout_machine =
     \<lparr>machineId = ''checkout'', currentState = ''cart'', states = Map.empty,
      ctx = [''items'' \<mapsto> 2, ''a'' \<mapsto> 0], history = [], created = 0\<rparr>"

definition checkout_table :: "nat table" where
  "checkout_table = [(''cart:PAY'', Handler pay_handler), (''cart:NOTE'', Handler note_handler)]"

definition checkout :: "(nat, nat) adapter" where
  "checkout =
     \<lparr>machines = [''checkout'' \<mapsto> checkout_machine],
      transitions = [''checkout'' \<mapsto> checkout_table],
      stateCallbacks = [''checkout'' \<mapsto> [counter]],
      world = 0, calls = [], console = []\<rparr>"

subsection \<open>Labels that contain a colon\<close>

definition wizard_config :: "nat config" where
  "wizard_config =
     \<lparr>initialState = Some ''step:1'', cfg_states = None, cfg_context = None,
      cfg_transitions = Some [(''step:1'', [(''NEXT'', Target ''step:2'')])]\<rparr>"

definition order_config :: "nat config" where
  "order_config =
     \<lparr>initialState = Some ''order:new'', cfg_states = None, cfg_context = None,
      cfg_transitions = None\<rparr>"

section \<open>Properties\<close>

subsection \<open>Notification\<close>

lemma notify_each_machines [simp]: "machines (notify_each mid cd cbs s) = machines s"
  by (induction cbs arbitrary: s) (auto simp: Let_def split: prod.splits)

lemma notify_each_transitions [simp]: "transitions (notify_each mid cd cbs s) = transitions s"
  by (induction cbs arbitrary: s) (auto simp: Let_def split: prod.splits)

lemma notify_each_stateCallbacks [simp]:
  "stateCallbacks (notify_each mid cd cbs s) = stateCallbacks s"
  by (induction cbs arbitrary: s) (auto simp: Let_def split: prod.splits)

lemma notify_each_calls:
  "calls (notify_each mid cd cbs s) = calls s @ map (\<lambda>c. (mid, lid c, cd)) cbs"
  by (induction cbs arbitrary: s) (auto simp: Let_def split: prod.splits)

lemma notifyStateChange_machines [simp]: "machines (notifyStateChange mid cd s) = machines s"
  by (simp add: notifyStateChange_def split: option.splits)

lemma notifyStateChange_transitions [simp]:
  "transitions (notifyStateChange mid cd s) = transitions s"
  by (simp add: notifyStateChange_def split: option.splits)

lemma notifyStateChange_stateCallbacks [simp]:
  "stateCallbacks (notifyStateChange mid cd s) = stateCallbacks s"
  by (simp add: notifyStateChange_def split: option.splits)

lemma notifyStateChange_calls:
  "calls (notifyStateChange mid cd s) =
     calls s @ map (\<lambda>c. (mid, lid c, cd)) (callbacks_of mid s)"
  by (simp add: notifyStateChange_def callbacks_of_def notify_each_calls split: option.splits)

lemma notify_each_world:
  "world (notify_each mid cd cbs s) = foldl (\<lambda>w c. snd (lrun c cd w)) (world s) cbs"
  by (induction cbs arbitrary: s) (auto simp: Let_def split: prod.splits)

lemma notifyStateChange_world:
  "world (notifyStateChange mid cd s) =
     foldl (\<lambda>w c. snd (lrun c cd w)) (world s) (callbacks_of mid s)"
  by (simp add: notifyStateChange_def callbacks_of_def notify_each_world split: option.splits)

lemma notify_each_console:
  "console (notify_each mid cd cbs s) =
     console s @ map (\<lambda>i. Error (''Error in state change callback for '' @ mid @ '':''))
                     (thrown cd cbs (world s))"
  by (induction cbs arbitrary: s) (auto simp: Let_def split: prod.splits)

lemma notifyStateChange_console:
  "console (notifyStateChange mid cd s) =
     console s @ map (\<lambda>i. Error (''Error in state change callback for '' @ mid @ '':''))
                     (thrown cd (callbacks_of mid s) (world s))"
  by (simp add: notifyStateChange_def callbacks_of_def notify_each_console split: option.splits)

subsection \<open>The two outcomes of \<open>send\<close>\<close>

lemma send_resolved:
  assumes "machines s mid = Some m"
    and "transitions s mid = Some tbl"
    and "table_get tbl (key_of (currentState m) ev) = Some t"
    and "truthy t"
    and "resolve t m pl = Some (to, data, c')"
  shows "send mid ev pl now s =
     Inr (\<lparr>success = True, res_fromState = currentState m, res_toState = to,
           res_event = ev, res_context = Some c'\<rparr>,
          notifyStateChange mid (change_data (currentState m) to ev pl c' data)
            (s\<lparr>machines := (machines s)(mid \<mapsto>
               m\<lparr>currentState := to, ctx := c',
                  history :=
                    (let pushed = history m @
                       [\<lparr>fromState = currentState m, toState = to, event = ev,
                         payload = pl, timestamp = now\<rparr>]
                     in if length pushed > 100 then slice (- 100) pushed else pushed)\<rparr>)\<rparr>))"
  using assms by (simp add: send_def Let_def)

lemma send_success_D:
  assumes "send mid ev pl now s = Inr (res, s')" and "success res"
  obtains m tbl t to data c' where "machines s mid = Some m" "transitions s mid = Some tbl"
    "table_get tbl (key_of (currentState m) ev) = Some t" "truthy t"
    "resolve t m pl = Some (to, data, c')"
  using assms
  by (auto simp: send_def no_transition_def Let_def split: option.splits if_splits prod.splits)

lemma send_failure_D:
  assumes "send mid ev pl now s = Inr (res, s')" and "\<not> success res"
  shows "machines s' = machines s \<and> transitions s' = transitions s
     \<and> stateCallbacks s' = stateCallbacks s \<and> calls s' = calls s \<and> world s' = world s"
  using assms
  by (auto simp: send_def no_transition_def Let_def split: option.splits if_splits prod.splits)

lemma slice_neg: "n > 0 \<Longrightarrow> slice (- int n) xs = drop (length xs - n) xs"
  by (auto simp: slice_def Let_def max_def nat_diff_distrib')

lemma limited_eq:
  "(if length p > 100 then slice (- 100) p else p) = drop (length p - 100) p"
  using slice_neg [of 100 p] by simp

lemma send_history:
  assumes "machines s mid = Some m" and "send mid ev pl now s = Inr (res, s')" and "success res"
  shows "\<exists>m'. machines s' mid = Some m' \<and> machines s' = (machines s)(mid \<mapsto> m')
      \<and> history m' =
          (let h = history m @ [\<lparr>fromState = currentState m, toState = res_toState res,
                                 event = ev, payload = pl, timestamp = now\<rparr>]
           in drop (length h - 100) h)"
proof -
  from assms(2,3) obtain m0 tbl t to data c' where h: "machines s mid = Some m0"
    "transitions s mid = Some tbl"
    "table_get tbl (key_of (currentState m0) ev) = Some t" "truthy t"
    "resolve t m0 pl = Some (to, data, c')"
    by (rule send_success_D)
  have m0: "m0 = m" using h(1) assms(1) by simp
  show ?thesis
    using assms(2) unfolding send_resolved [OF h, of now] m0
    by (auto simp: Let_def limited_eq simp del: length_append)
qed

lemma send_calls:
  assumes "send mid ev pl now s = Inr (res, s')"
  shows "stateCallbacks s' = stateCallbacks s
     \<and> (\<exists>cd. calls s' = calls s @ map (\<lambda>c. (mid, lid c, cd))
                                       (if success res then callbacks_of mid s else []))"
proof (cases "success res")
  case False
  with assms show ?thesis by (auto dest!: send_failure_D)
next
  case True
  from assms True obtain m tbl t to data c' where h: "machines s mid = Some m"
    "transitions s mid = Some tbl"
    "table_get tbl (key_of (currentState m) ev) = Some t" "truthy t"
    "resolve t m pl = Some (to, data, c')"
    by (rule send_success_D)
  have cb: "\<And>x. callbacks_of mid (s\<lparr>machines := x\<rparr>) = callbacks_of mid s"
    by (simp add: callbacks_of_def)
  show ?thesis
    using assms True unfolding send_resolved [OF h, of now]
    by (auto simp: notifyStateChange_calls cb)
qed

subsection \<open>Registration\<close>

lemma register_events_eq:
  "transitions s mid = Some tbl \<Longrightarrow>
   register_events mid from ts s =
     Inr (s\<lparr>transitions := (transitions s)(mid \<mapsto> table_events from ts tbl)\<rparr>)"
proof (induction ts arbitrary: s tbl)
  case Nil
  then show ?case by (simp add: table_events_def fun_upd_idem)
next
  case (Cons a ts)
  obtain ev to where a: "a = (ev, to)" by (cases a)
  let ?s1 = "s\<lparr>transitions := (transitions s)(mid \<mapsto> table_set (key_of from ev) to tbl)\<rparr>"
  have r: "registerTransition mid from ev to s = Inr ?s1"
    using Cons.prems by (simp add: registerTransition_def)
  have "transitions ?s1 mid = Some (table_set (key_of from ev) to tbl)" by simp
  from Cons.IH[OF this]
  have "register_events mid from ts ?s1 =
     Inr (?s1\<lparr>transitions := (transitions ?s1)(mid \<mapsto> table_events from ts (table_set (key_of from ev) to tbl))\<rparr>)" .
  moreover have "table_events from (a # ts) tbl = table_events from ts (table_set (key_of from ev) to tbl)"
    by (simp add: a table_events_def)
  ultimately show ?case
    by (simp add: a r fun_upd_def cong: if_cong)
qed

lemma register_all_eq:
  "transitions s mid = Some tbl \<Longrightarrow>
   register_all mid cfg s = Inr (s\<lparr>transitions := (transitions s)(mid \<mapsto> table_all cfg tbl)\<rparr>)"
proof (induction cfg arbitrary: s tbl)
  case Nil
  then show ?case by (simp add: table_all_def fun_upd_idem)
next
  case (Cons a cfg)
  obtain frm ts where a: "a = (frm, ts)" by (cases a)
  let ?s1 = "s\<lparr>transitions := (transitions s)(mid \<mapsto> table_events frm ts tbl)\<rparr>"
  have r: "register_events mid frm ts s = Inr ?s1"
    using Cons.prems by (rule register_events_eq)
  have "transitions ?s1 mid = Some (table_events frm ts tbl)" by simp
  from Cons.IH[OF this]
  have "register_all mid cfg ?s1 =
     Inr (?s1\<lparr>transitions := (transitions ?s1)(mid \<mapsto> table_all cfg (table_events frm ts tbl))\<rparr>)" .
  moreover have "table_all (a # cfg) tbl = table_all cfg (table_events frm ts tbl)"
    by (simp add: a table_all_def)
  ultimately show ?case
    by (simp add: a r fun_upd_def cong: if_cong)
qed

lemma registerMachine_eq:
  "\<exists>s'. registerMachine mid config now s = Inr (new_machine mid config now, s')
      \<and> machines s' = (machines s)(mid \<mapsto> new_machine mid config now)
      \<and> transitions s' = (transitions s)(mid \<mapsto> config_table config)
      \<and> stateCallbacks s' = (stateCallbacks s)(mid \<mapsto> [])
      \<and> world s' = world s \<and> calls s' = calls s"
proof (cases "cfg_transitions config")
  case None
  then show ?thesis by (simp add: registerMachine_def Let_def config_table_def)
next
  case (Some ts)
  define s1 where "s1 = (if machines s mid \<noteq> None
                then s\<lparr>console := console s @
                       [Warn (''Machine '' @ mid @ '' already registered, overwriting'')]\<rparr>
                else s)"
  define s2 where "s2 = s1\<lparr>machines := (machines s1)(mid \<mapsto> new_machine mid config now),
                  transitions := (transitions s1)(mid \<mapsto> []),
                  stateCallbacks := (stateCallbacks s1)(mid \<mapsto> [])\<rparr>"
  have t: "transitions s2 mid = Some []" by (simp add: s2_def)
  have f: "machines s1 = machines s" "transitions s1 = transitions s"
    "stateCallbacks s1 = stateCallbacks s" "world s1 = world s" "calls s1 = calls s"
    by (simp_all add: s1_def)
  have ra: "register_all mid ts s2 =
      Inr (s2\<lparr>transitions := (transitions s2)(mid \<mapsto> table_all ts [])\<rparr>)"
    by (rule register_all_eq[OF t])
  have eq: "registerMachine mid config now s =
      (case register_all mid ts s2 of Inl e \<Rightarrow> Inl e | Inr s3 \<Rightarrow> Inr (new_machine mid config now, s3))"
    by (simp add: registerMachine_def Let_def Some s1_def s2_def)
  show ?thesis
    unfolding eq ra by (simp add: config_table_def Some s2_def f)
qed

subsection \<open>A registered machine has its table and its callbacks\<close>

lemma dom_send:
  assumes "send mid ev pl now s = Inr (res, s')"
  shows "dom (machines s') = dom (machines s) \<and> transitions s' = transitions s"
proof (cases "success res")
  case False
  with assms show ?thesis by (auto dest!: send_failure_D)
next
  case True
  from assms True obtain m where m: "machines s mid = Some m"
    by (auto elim: send_success_D)
  from send_history [OF m assms True] obtain m' where
    m': "machines s' = (machines s)(mid \<mapsto> m')" by blast
  from assms True obtain m0 tbl t to data c' where h: "machines s mid = Some m0"
    "transitions s mid = Some tbl"
    "table_get tbl (key_of (currentState m0) ev) = Some t" "truthy t"
    "resolve t m0 pl = Some (to, data, c')"
    by (rule send_success_D)
  have "transitions s' = transitions s"
    using assms unfolding send_resolved [OF h, of now] by auto
  then show ?thesis using m m' by auto
qed

lemma consistent_exec: "consistent s \<Longrightarrow> consistent (exec c s)"
proof (cases c)
  case (RegisterMachine mid config now)
  assume h: "consistent s"
  from registerMachine_eq [of mid config now s] obtain s' where
    s': "registerMachine mid config now s = Inr (new_machine mid config now, s')"
    "machines s' = (machines s)(mid \<mapsto> new_machine mid config now)"
    "transitions s' = (transitions s)(mid \<mapsto> config_table config)"
    "stateCallbacks s' = (stateCallbacks s)(mid \<mapsto> [])" by blast
  show ?thesis using h s' by (simp add: RegisterMachine consistent_def)
next
  case (RegisterTransition mid frm ev t)
  assume "consistent s"
  then show ?thesis
    by (auto simp: RegisterTransition consistent_def registerTransition_def split: option.splits)
next
  case (Send mid ev pl now)
  assume h: "consistent s"
  show ?thesis
  proof (cases "send mid ev pl now s")
    case (Inl e)
    then show ?thesis using h by (simp add: Send)
  next
    case (Inr p)
    obtain res s' where p: "p = (res, s')" by (cases p)
    from dom_send [OF Inr [unfolded p]] send_calls [OF Inr [unfolded p]] h
    show ?thesis by (simp add: Send Inr p consistent_def)
  qed
next
  case (UpdateContext mid updates)
  assume "consistent s"
  then show ?thesis
    by (auto simp: UpdateContext consistent_def updateContext_def split: option.splits)
next
  case (OnStateChange mid cb)
  assume "consistent s"
  then show ?thesis
    by (auto simp: OnStateChange consistent_def onStateChange_def split: option.splits)
next
  case (OffStateChange mid cb)
  assume "consistent s"
  then show ?thesis
    by (auto simp: OffStateChange consistent_def offStateChange_def split: option.splits)
next
  case (Reset mid clearHistory)
  assume "consistent s"
  then show ?thesis
    by (auto simp: Reset consistent_def reset_def Let_def split: option.splits)
next
  case (UnregisterMachine mid)
  assume "consistent s"
  then show ?thesis
    by (auto simp: UnregisterMachine consistent_def unregisterMachine_def)
qed

lemma consistent_run: "consistent s \<Longrightarrow> consistent (run cs s)"
  by (induction cs arbitrary: s) (auto intro: consistent_exec)

lemma consistent_reachable: "consistent (run cs (new_adapter w))"
  by (rule consistent_run) (simp add: consistent_def new_adapter_def)

lemma registered_has_table:
  assumes "machines (run cs (new_adapter w)) mid = Some m"
  shows "\<exists>tbl cbs. transitions (run cs (new_adapter w)) mid = Some tbl
           \<and> stateCallbacks (run cs (new_adapter w)) mid = Some cbs"
proof -
  have "mid \<in> dom (machines (run cs (new_adapter w)))" using assms by auto
  then have "mid \<in> dom (transitions (run cs (new_adapter w)))"
    "mid \<in> dom (stateCallbacks (run cs (new_adapter w)))"
    using consistent_reachable [of cs w] by (simp_all add: consistent_def)
  then show ?thesis by auto
qed

text \<open>The turnstile is what registration and two calls of \<open>onStateChange\<close> build.\<close>

lemma turnstile_reachable:
  "run [RegisterMachine ''turnstile'' turnstile_config 0,
        OnStateChange ''turnstile'' thrower, OnStateChange ''turnstile'' counter]
       (new_adapter 0) = turnstile"
  by (simp add: registerMachine_def Let_def new_adapter_def turnstile_config_def
      new_machine_def or_else_def registerTransition_def key_of_def onStateChange_def
      turnstile_def turnstile_machine_def turnstile_table_def)

subsection \<open>Sending to an unknown machine\<close>

text \<open>
  Claim C3 says that \<open>send\<close> to an identifier with no registered machine does not raise
  but returns a null-like or \<open>success = false\<close> result. The first statement of \<open>send\<close>
  is a guard that throws: on a fresh adapter the call ends in the error.
\<close>

theorem send_unknown_soft_counterexample:
  "send ''ghost'' ''GO'' (None :: nat option) 0 (new_adapter (0 :: nat)) = Inl (NotFound ''ghost'')"
  by (simp add: send_def new_adapter_def)

text \<open>
  Claim C3, amended: for every identifier with no registered machine, \<open>send\<close> throws the
  error "Machine not found" for that identifier (and so leaves the adapter as it was).
\<close>

theorem send_unknown_throws:
  "machines s mid = None \<Longrightarrow> send mid ev pl now s = Inl (NotFound mid)"
  by (simp add: send_def)

theorem send_unknown_throws_witness:
  "machines turnstile ''ghost'' = None \<and>
   send ''ghost'' ''COIN'' None 3 turnstile = Inl (NotFound ''ghost'')"
proof -
  have h: "machines turnstile ''ghost'' = None"
    by (simp add: turnstile_def)
  show ?thesis
    using h send_unknown_throws [OF h, of "''COIN''" None 3] by simp
qed

subsection \<open>Sending an event that has no transition\<close>

text \<open>
  Claim C1: when the transition table of a registered machine has no entry under the key
  of the current state and the event, \<open>send\<close> returns \<open>success = false\<close> with
  \<open>fromState\<close> and \<open>toState\<close> both the current state; the machines (so the current state,
  the context and the history of each), the tables and the callbacks are as before, no
  listener is called and the world is untouched.
\<close>

theorem send_without_transition:
  assumes "machines s mid = Some m"
    and "transitions s mid = Some tbl"
    and "table_get tbl (key_of (currentState m) ev) = None"
  shows "\<exists>s'. send mid ev pl now s =
             Inr (\<lparr>success = False, res_fromState = currentState m,
                   res_toState = currentState m, res_event = ev, res_context = None\<rparr>, s')
           \<and> machines s' = machines s \<and> transitions s' = transitions s
           \<and> stateCallbacks s' = stateCallbacks s
           \<and> world s' = world s \<and> calls s' = calls s"
  using assms by (simp add: send_def no_transition_def)

theorem send_without_transition_witness:
  "machines turnstile ''turnstile'' = Some turnstile_machine \<and>
   transitions turnstile ''turnstile'' = Some turnstile_table \<and>
   table_get turnstile_table (key_of (currentState turnstile_machine) ''PUSH'') = None \<and>
   (\<exists>s'. send ''turnstile'' ''PUSH'' None 7 turnstile =
            Inr (\<lparr>success = False, res_fromState = ''locked'', res_toState = ''locked'',
                  res_event = ''PUSH'', res_context = None\<rparr>, s')
          \<and> machines s' = machines turnstile \<and> transitions s' = transitions turnstile
          \<and> stateCallbacks s' = stateCallbacks turnstile
          \<and> world s' = world turnstile \<and> calls s' = calls turnstile)"
proof -
  have h1: "machines turnstile ''turnstile'' = Some turnstile_machine"
    by (simp add: turnstile_def)
  have h2: "transitions turnstile ''turnstile'' = Some turnstile_table"
    by (simp add: turnstile_def)
  have h3: "table_get turnstile_table (key_of (currentState turnstile_machine) ''PUSH'') = None"
    by (simp add: turnstile_table_def turnstile_machine_def key_of_def table_get_def)
  have c: "currentState turnstile_machine = ''locked''"
    by (simp add: turnstile_machine_def)
  show ?thesis
    using h1 h2 h3 send_without_transition [OF h1 h2 h3, of None 7]
    by (simp only: c simp_thms)
qed

subsection \<open>Handlers\<close>

text \<open>
  Claim C4: a handler-valued transition under the key of the current state and the event.
  If the handler's result has no \<open>context\<close>, the machine's context after \<open>send\<close> is the
  one before; if it has a patch, every key of the patch has the patch's value and every
  other key keeps its value; if the result has no \<open>state\<close>, the target state is the
  current state.
\<close>

theorem handler_context_and_state:
  assumes "machines s mid = Some m"
    and "transitions s mid = Some tbl"
    and "table_get tbl (key_of (currentState m) ev) = Some (Handler h)"
    and "h (ctx m) pl = Some r"
  shows "\<exists>res s' m'. send mid ev pl now s = Inr (res, s') \<and> success res
           \<and> machines s' mid = Some m'
           \<and> (r_context r = None \<longrightarrow> ctx m' = ctx m)
           \<and> (\<forall>patch. r_context r = Some patch \<longrightarrow>
                 (\<forall>k. (k \<in> dom patch \<longrightarrow> ctx m' k = patch k)
                    \<and> (k \<notin> dom patch \<longrightarrow> ctx m' k = ctx m k)))
           \<and> (r_state r = None \<longrightarrow>
                 currentState m' = currentState m \<and> res_toState res = currentState m)"
proof -
  define to where "to = or_else (r_state r) (currentState m)"
  define data where "data = (case r_data r of None \<Rightarrow> Map.empty | Some d \<Rightarrow> d)"
  define c' where "c' = (case r_context r of None \<Rightarrow> ctx m | Some c \<Rightarrow> ctx m ++ c)"
  have res: "resolve (Handler h) m pl = Some (to, data, c')"
    using assms(4) by (simp add: resolve_def to_def data_def c'_def)
  have tr: "truthy (Handler h)" by (simp add: truthy_def)
  note snd = send_resolved [OF assms(1) assms(2) assms(3) tr res, of now]
  have a: "r_context r = None \<longrightarrow> c' = ctx m" by (simp add: c'_def)
  have b: "\<forall>patch. r_context r = Some patch \<longrightarrow>
                 (\<forall>k. (k \<in> dom patch \<longrightarrow> c' k = patch k)
                    \<and> (k \<notin> dom patch \<longrightarrow> c' k = ctx m k))"
    by (auto simp: c'_def map_add_dom_app_simps)
  have c: "r_state r = None \<longrightarrow> to = currentState m" by (simp add: to_def or_else_def)
  show ?thesis
    unfolding snd using a b c by simp
qed

theorem handler_context_and_state_witness:
  "machines checkout ''checkout'' = Some checkout_machine \<and>
   transitions checkout ''checkout'' = Some checkout_table \<and>
   table_get checkout_table (key_of (currentState checkout_machine) ''NOTE'') =
     Some (Handler note_handler) \<and>
   note_handler (ctx checkout_machine) None =
     Some \<lparr>r_state = None, r_context = Some [''a'' \<mapsto> 1], r_data = None\<rparr> \<and>
   (\<exists>res s' m'. send ''checkout'' ''NOTE'' None 4 checkout = Inr (res, s') \<and> success res
      \<and> machines s' ''checkout'' = Some m'
      \<and> ctx m' ''a'' = Some 1 \<and> ctx m' ''items'' = Some 2
      \<and> currentState m' = ''cart'' \<and> res_toState res = ''cart'')"
proof -
  have h1: "machines checkout ''checkout'' = Some checkout_machine"
    by (simp add: checkout_def)
  have h2: "transitions checkout ''checkout'' = Some checkout_table"
    by (simp add: checkout_def)
  have h3: "table_get checkout_table (key_of (currentState checkout_machine) ''NOTE'') =
     Some (Handler note_handler)"
    by (simp add: checkout_table_def checkout_machine_def key_of_def table_get_def)
  have h4: "note_handler (ctx checkout_machine) None =
     Some \<lparr>r_state = None, r_context = Some [''a'' \<mapsto> 1], r_data = None\<rparr>"
    by (simp add: note_handler_def)
  from handler_context_and_state [OF h1 h2 h3 h4, of 4]
  obtain res s' m' where r: "send ''checkout'' ''NOTE'' None 4 checkout = Inr (res, s')"
    "success res" "machines s' ''checkout'' = Some m'"
    "\<forall>k. (k \<in> dom [''a'' \<mapsto> (1::nat)] \<longrightarrow> ctx m' k = [''a'' \<mapsto> 1] k)
        \<and> (k \<notin> dom [''a'' \<mapsto> (1::nat)] \<longrightarrow> ctx m' k = ctx checkout_machine k)"
    "currentState m' = currentState checkout_machine"
    "res_toState res = currentState checkout_machine"
    by auto
  have a: "ctx m' ''a'' = Some 1" using r(4) by simp
  have "ctx m' ''items'' = ctx checkout_machine ''items''"
    using r(4) by simp
  then have b: "ctx m' ''items'' = Some 2" by (simp add: checkout_machine_def)
  have c: "currentState checkout_machine = ''cart''" by (simp add: checkout_machine_def)
  show ?thesis
    using h1 h2 h3 h4 r(1,2,3,5,6) a b c by auto
qed

subsection \<open>Updating the context directly\<close>



subsection \<open>Listeners\<close>

text \<open>
  Claim C7: in a successful \<open>send\<close> every callback of the machine is called, in the
  order of the callback list (to which \<open>onStateChange\<close> appends at the end), each on the
  world its predecessor left; a callback that throws is reported on the console and
  neither stops the later callbacks nor the \<open>success = true\<close> result of \<open>send\<close>.
\<close>

theorem listeners_in_order_isolated:
  assumes "machines s mid = Some m"
    and "transitions s mid = Some tbl"
    and "stateCallbacks s mid = Some cbs"
    and "table_get tbl (key_of (currentState m) ev) = Some t"
    and "truthy t"
    and "resolve t m pl = Some (to, data, c')"
  shows "\<exists>s'. send mid ev pl now s =
             Inr (\<lparr>success = True, res_fromState = currentState m, res_toState = to,
                   res_event = ev, res_context = Some c'\<rparr>, s')
           \<and> calls s' = calls s @
               map (\<lambda>c. (mid, lid c, change_data (currentState m) to ev pl c' data)) cbs
           \<and> world s' =
               foldl (\<lambda>w c. snd (lrun c (change_data (currentState m) to ev pl c' data) w))
                     (world s) cbs
           \<and> console s' = console s @
               map (\<lambda>i. Error (''Error in state change callback for '' @ mid @ '':''))
                   (thrown (change_data (currentState m) to ev pl c' data) cbs (world s))
           \<and> stateCallbacks (onStateChange mid cb s) mid = Some (cbs @ [cb])"
proof -
  have cb: "\<And>x. callbacks_of mid (s\<lparr>machines := x\<rparr>) = cbs"
    using assms(3) by (simp add: callbacks_of_def)
  show ?thesis
    unfolding send_resolved [OF assms(1) assms(2) assms(4) assms(5) assms(6), of now]
    using assms(3)
    by (simp add: notifyStateChange_calls notifyStateChange_world notifyStateChange_console
        cb onStateChange_def)
qed

theorem listeners_in_order_isolated_witness:
  "machines turnstile ''turnstile'' = Some turnstile_machine \<and>
   transitions turnstile ''turnstile'' = Some turnstile_table \<and>
   stateCallbacks turnstile ''turnstile'' = Some [thrower, counter] \<and>
   table_get turnstile_table (key_of (currentState turnstile_machine) ''COIN'') =
     Some (Target ''unlocked'') \<and>
   truthy (Target ''unlocked'' :: nat transition) \<and>
   resolve (Target ''unlocked'') turnstile_machine None =
     Some (''unlocked'', Map.empty, Map.empty) \<and>
   (\<exists>s'. send ''turnstile'' ''COIN'' None 3 turnstile =
            Inr (\<lparr>success = True, res_fromState = ''locked'', res_toState = ''unlocked'',
                  res_event = ''COIN'', res_context = Some Map.empty\<rparr>, s')
      \<and> map (\<lambda>c. (fst c, fst (snd c))) (calls s') = [(''turnstile'', 1), (''turnstile'', 2)]
      \<and> world s' = 11
      \<and> console s' = [Error ''Error in state change callback for turnstile:''])"
proof -
  have h1: "machines turnstile ''turnstile'' = Some turnstile_machine"
    by (simp add: turnstile_def)
  have h2: "transitions turnstile ''turnstile'' = Some turnstile_table"
    by (simp add: turnstile_def)
  have h3: "stateCallbacks turnstile ''turnstile'' = Some [thrower, counter]"
    by (simp add: turnstile_def)
  have h4: "table_get turnstile_table (key_of (currentState turnstile_machine) ''COIN'') =
     Some (Target ''unlocked'')"
    by (simp add: turnstile_table_def turnstile_machine_def key_of_def table_get_def)
  have h5: "truthy (Target ''unlocked'' :: nat transition)"
    by (simp add: truthy_def)
  have h6: "resolve (Target ''unlocked'') turnstile_machine None =
     Some (''unlocked'', Map.empty, Map.empty)"
    by (simp add: resolve_def turnstile_machine_def)
  have c: "currentState turnstile_machine = ''locked''"
    by (simp add: turnstile_machine_def)
  have w: "world turnstile = 0" "calls turnstile = []" "console turnstile = []"
    by (simp_all add: turnstile_def)
  from listeners_in_order_isolated [OF h1 h2 h3 h4 h5 h6, of 3 counter]
  show ?thesis
    using h1 h2 h3 h4 h5 h6
    by (auto simp: c w thrower_def counter_def)
qed

subsection \<open>The bound on the history\<close>

lemma hist_ok_send:
  assumes "hist_ok s" and "send mid ev pl now s = Inr (res, s')"
  shows "hist_ok s'"
proof (cases "success res")
  case False
  with assms show ?thesis by (auto simp: hist_ok_def dest!: send_failure_D)
next
  case True
  from assms(2) True obtain m where m: "machines s mid = Some m"
    by (auto elim: send_success_D)
  from send_history [OF m assms(2) True] obtain m' where
    m': "machines s' = (machines s)(mid \<mapsto> m')" "length (history m') \<le> 100"
    by (auto simp: Let_def)
  show ?thesis using assms(1) m' by (auto simp: hist_ok_def)
qed

lemma hist_ok_exec: "hist_ok s \<Longrightarrow> hist_ok (exec c s)"
proof (cases c)
  case (RegisterMachine mid config now)
  assume h: "hist_ok s"
  from registerMachine_eq [of mid config now s] obtain s' where
    s': "registerMachine mid config now s = Inr (new_machine mid config now, s')"
    "machines s' = (machines s)(mid \<mapsto> new_machine mid config now)" by blast
  show ?thesis using h s' by (auto simp: RegisterMachine hist_ok_def new_machine_def)
next
  case (RegisterTransition mid frm ev t)
  assume "hist_ok s"
  then show ?thesis
    by (auto simp: RegisterTransition hist_ok_def registerTransition_def split: option.splits)
next
  case (Send mid ev pl now)
  assume "hist_ok s"
  then show ?thesis
    by (auto simp: Send split: sum.splits dest: hist_ok_send)
next
  case (UpdateContext mid updates)
  assume "hist_ok s"
  then show ?thesis
    by (auto simp: UpdateContext hist_ok_def updateContext_def split: option.splits if_splits)
next
  case (OnStateChange mid cb)
  assume "hist_ok s"
  then show ?thesis
    by (auto simp: OnStateChange hist_ok_def onStateChange_def split: option.splits)
next
  case (OffStateChange mid cb)
  assume "hist_ok s"
  then show ?thesis
    by (auto simp: OffStateChange hist_ok_def offStateChange_def split: option.splits)
next
  case (Reset mid clearHistory)
  assume "hist_ok s"
  then show ?thesis
    by (auto simp: Reset hist_ok_def reset_def Let_def split: option.splits if_splits)
next
  case (UnregisterMachine mid)
  assume "hist_ok s"
  then show ?thesis
    by (auto simp: UnregisterMachine hist_ok_def unregisterMachine_def split: if_splits)
qed

lemma hist_ok_run: "hist_ok s \<Longrightarrow> hist_ok (run cs s)"
  by (induction cs arbitrary: s) (auto intro: hist_ok_exec)

lemma hist_ok_new: "hist_ok (new_adapter w)"
  by (simp add: hist_ok_def new_adapter_def)

text \<open>
  Claim C2: after every sequence of calls on a new adapter the history of every machine
  has at most 100 entries; and a successful \<open>send\<close> leaves the last 100 entries of the
  old history followed by the new record, in that order.
\<close>

theorem history_bounded:
  "(machines (run cs (new_adapter w)) mid = Some m \<longrightarrow> length (history m) \<le> 100)
   \<and> (machines s mid' = Some m0 \<and> send mid' ev pl now s = Inr (res, s') \<and> success res \<longrightarrow>
        (\<exists>m'. machines s' mid' = Some m' \<and>
           history m' =
             (let h = history m0 @ [\<lparr>fromState = currentState m0, toState = res_toState res,
                                     event = ev, payload = pl, timestamp = now\<rparr>]
              in drop (length h - 100) h)))"
proof -
  have "hist_ok (run cs (new_adapter w))"
    by (rule hist_ok_run [OF hist_ok_new])
  then have a: "machines (run cs (new_adapter w)) mid = Some m \<longrightarrow> length (history m) \<le> 100"
    by (simp add: hist_ok_def)
  show ?thesis using a send_history [of s mid' m0 ev pl now res s'] by blast
qed

theorem history_bounded_witness:
  "machines (run [RegisterMachine ''turnstile'' turnstile_config 0,
                  Send ''turnstile'' ''COIN'' None 1] (new_adapter (0 :: nat))) ''turnstile'' =
     Some (turnstile_machine\<lparr>currentState := ''unlocked'',
             history := [\<lparr>fromState = ''locked'', toState = ''unlocked'', event = ''COIN'',
                          payload = None, timestamp = 1\<rparr>]\<rparr>) \<and>
   machines busy ''turnstile'' = Some busy_machine \<and>
   length (history busy_machine) = 100 \<and>
   (\<exists>res s'. send ''turnstile'' ''COIN'' None 7 busy = Inr (res, s') \<and> success res \<and>
      (\<exists>m'. machines s' ''turnstile'' = Some m' \<and> length (history m') = 100 \<and>
         history m' = replicate 99 old_entry @
           [\<lparr>fromState = ''locked'', toState = ''unlocked'', event = ''COIN'',
             payload = None, timestamp = 7\<rparr>]))"
proof -
  let ?cs = "[RegisterMachine ''turnstile'' turnstile_config 0,
              Send ''turnstile'' ''COIN'' None 1] :: (nat, nat) op list"
  let ?m1 = "turnstile_machine\<lparr>currentState := ''unlocked'',
             history := [\<lparr>fromState = ''locked'', toState = ''unlocked'', event = ''COIN'',
                          payload = None, timestamp = 1\<rparr>]\<rparr>"
  have h1: "machines (run ?cs (new_adapter (0 :: nat))) ''turnstile'' = Some ?m1"
    by (simp add: registerMachine_def Let_def new_adapter_def turnstile_config_def
        new_machine_def or_else_def registerTransition_def key_of_def send_def table_get_def
        truthy_def resolve_def notifyStateChange_def turnstile_machine_def)
  have h2: "machines busy ''turnstile'' = Some busy_machine"
    by (simp add: busy_def)
  have h3: "transitions busy ''turnstile'' = Some turnstile_table"
    by (simp add: busy_def turnstile_def)
  have c: "currentState busy_machine = ''locked''"
    by (simp add: busy_machine_def turnstile_machine_def)
  have h4: "table_get turnstile_table (key_of (currentState busy_machine) ''COIN'') =
     Some (Target ''unlocked'')"
    by (simp add: c turnstile_table_def key_of_def table_get_def)
  have h5: "truthy (Target ''unlocked'' :: nat transition)"
    by (simp add: truthy_def)
  have h6: "resolve (Target ''unlocked'') busy_machine None =
     Some (''unlocked'', Map.empty, ctx busy_machine)"
    by (simp add: resolve_def)
  from send_resolved [OF h2 h3 h4 h5 h6, of 7]
  obtain res s' where r: "send ''turnstile'' ''COIN'' None 7 busy = Inr (res, s')"
    "success res" "res_toState res = ''unlocked''"
    by simp
  have len: "length (history busy_machine) = 100"
    by (simp add: busy_machine_def)
  have hb: "history busy_machine = replicate 100 old_entry"
    by (simp add: busy_machine_def)
  from history_bounded [of ?cs 0 "''turnstile''" ?m1 busy "''turnstile''" busy_machine
      "''COIN''" None 7 res s'] h1 h2 r
  obtain m' where m': "machines s' ''turnstile'' = Some m'"
    "history m' = (let h = history busy_machine @
         [\<lparr>fromState = currentState busy_machine, toState = ''unlocked'',
           event = ''COIN'', payload = None, timestamp = 7\<rparr>]
       in drop (length h - 100) h)"
    by auto
  have "history m' = replicate 99 old_entry @
           [\<lparr>fromState = ''locked'', toState = ''unlocked'', event = ''COIN'',
             payload = None, timestamp = 7\<rparr>]"
    by (simp add: m'(2) hb c Let_def)
  then show ?thesis
    using h1 h2 len r(1,2) m'(1) by auto
qed

subsection \<open>Registering again\<close>

lemma call_count_append:
  "calls s' = calls s @ xs \<Longrightarrow>
   call_count mid i s' = call_count mid i s + length (filter (\<lambda>c. fst c = mid \<and> fst (snd c) = i) xs)"
  by (simp add: call_count_def)

lemma call_count_same: "calls s' = calls s \<Longrightarrow> call_count mid i s' = call_count mid i s"
  by (simp add: call_count_def)

lemma set_remove_first: "set (remove_first i cs) \<subseteq> set cs"
  by (induction cs) auto

lemma calls_registerTransition:
  "calls (case registerTransition mid frm ev t s of Inl e \<Rightarrow> s | Inr s' \<Rightarrow> s') = calls s"
  by (simp add: registerTransition_def split: option.splits)

lemma calls_updateContext: "calls (updateContext mid u s) = calls s"
  by (simp add: updateContext_def split: option.splits)

lemma calls_onStateChange: "calls (onStateChange mid cb s) = calls s"
  by (simp add: onStateChange_def split: option.splits)

lemma calls_offStateChange: "calls (offStateChange mid cb s) = calls s"
  by (simp add: offStateChange_def split: option.splits)

lemma calls_reset: "calls (reset mid ch s) = calls s"
  by (simp add: reset_def Let_def split: option.splits)

lemma calls_unregisterMachine: "calls (unregisterMachine mid s) = calls s"
  by (simp add: unregisterMachine_def)

lemma exec_call_count:
  assumes "not_listening mid i s"
  shows "call_count mid i (exec c s) = call_count mid i s"
proof (cases c)
  case (RegisterMachine mid' config now)
  from registerMachine_eq [of mid' config now s] obtain s' where
    "registerMachine mid' config now s = Inr (new_machine mid' config now, s')"
    "calls s' = calls s" by blast
  then show ?thesis by (simp add: RegisterMachine call_count_def)
next
  case (RegisterTransition mid' frm ev t)
  show ?thesis
    unfolding RegisterTransition exec.simps by (rule call_count_same [OF calls_registerTransition])
next
  case (Send mid' ev pl now)
  show ?thesis
  proof (cases "send mid' ev pl now s")
    case (Inl e)
    then show ?thesis by (simp add: Send)
  next
    case (Inr p)
    obtain res s' where p: "p = (res, s')" by (cases p)
    from send_calls [OF Inr [unfolded p]] obtain cd where
      cd: "calls s' = calls s @ map (\<lambda>c. (mid', lid c, cd))
                                   (if success res then callbacks_of mid' s else [])" by blast
    have "\<And>c. c \<in> set (callbacks_of mid' s) \<Longrightarrow> \<not> (mid' = mid \<and> lid c = i)"
      using assms by (auto simp: not_listening_def)
    then have "filter (\<lambda>c. fst c = mid \<and> fst (snd c) = i)
            (map (\<lambda>c. (mid', lid c, cd)) (if success res then callbacks_of mid' s else [])) = []"
      by (simp add: filter_empty_conv)
    with call_count_append [OF cd, of mid i] show ?thesis
      by (simp add: Send Inr p)
  qed
next
  case (UpdateContext mid' updates)
  show ?thesis
    unfolding UpdateContext exec.simps by (rule call_count_same [OF calls_updateContext])
next
  case (OnStateChange mid' cb)
  show ?thesis
    unfolding OnStateChange exec.simps by (rule call_count_same [OF calls_onStateChange])
next
  case (OffStateChange mid' cb)
  show ?thesis
    unfolding OffStateChange exec.simps by (rule call_count_same [OF calls_offStateChange])
next
  case (Reset mid' clearHistory)
  show ?thesis
    unfolding Reset exec.simps by (rule call_count_same [OF calls_reset])
next
  case (UnregisterMachine mid')
  show ?thesis
    unfolding UnregisterMachine exec.simps by (rule call_count_same [OF calls_unregisterMachine])
qed

lemma callbacks_registerTransition:
  "callbacks_of mid (case registerTransition mid' frm ev t s of Inl e \<Rightarrow> s | Inr s' \<Rightarrow> s') =
     callbacks_of mid s"
  by (simp add: registerTransition_def callbacks_of_def split: option.splits)

lemma callbacks_updateContext: "callbacks_of mid (updateContext mid' u s) = callbacks_of mid s"
  by (simp add: updateContext_def callbacks_of_def split: option.splits)

lemma callbacks_reset: "callbacks_of mid (reset mid' ch s) = callbacks_of mid s"
  by (simp add: reset_def callbacks_of_def Let_def split: option.splits)

lemma callbacks_onStateChange:
  "callbacks_of mid (onStateChange mid' cb s) =
     (if mid' = mid \<and> stateCallbacks s mid \<noteq> None then callbacks_of mid s @ [cb]
      else callbacks_of mid s)"
  by (auto simp: onStateChange_def callbacks_of_def split: option.splits)

lemma callbacks_offStateChange:
  "set (callbacks_of mid (offStateChange mid' cb s)) \<subseteq> set (callbacks_of mid s)"
  using set_remove_first [of "lid cb"]
  by (auto simp: offStateChange_def callbacks_of_def split: option.splits)

lemma callbacks_unregisterMachine:
  "set (callbacks_of mid (unregisterMachine mid' s)) \<subseteq> set (callbacks_of mid s)"
  by (auto simp: unregisterMachine_def callbacks_of_def split: option.splits)

lemma exec_not_listening:
  assumes "not_listening mid i s" and "\<forall>cb. c = OnStateChange mid cb \<longrightarrow> lid cb \<noteq> i"
  shows "not_listening mid i (exec c s)"
proof (cases c)
  case (RegisterMachine mid' config now)
  from registerMachine_eq [of mid' config now s] obtain s' where
    "registerMachine mid' config now s = Inr (new_machine mid' config now, s')"
    "stateCallbacks s' = (stateCallbacks s)(mid' \<mapsto> [])" by blast
  then show ?thesis using assms(1)
    by (simp add: RegisterMachine not_listening_def callbacks_of_def)
next
  case (RegisterTransition mid' frm ev t)
  show ?thesis using assms(1)
    by (simp add: RegisterTransition not_listening_def callbacks_registerTransition)
next
  case (Send mid' ev pl now)
  show ?thesis
  proof (cases "send mid' ev pl now s")
    case (Inl e)
    then show ?thesis using assms(1) by (simp add: Send)
  next
    case (Inr p)
    obtain res s' where p: "p = (res, s')" by (cases p)
    from send_calls [OF Inr [unfolded p]] have "stateCallbacks s' = stateCallbacks s" by blast
    then show ?thesis using assms(1)
      by (simp add: Send Inr p not_listening_def callbacks_of_def)
  qed
next
  case (UpdateContext mid' updates)
  show ?thesis using assms(1)
    by (simp add: UpdateContext not_listening_def callbacks_updateContext)
next
  case (OnStateChange mid' cb)
  show ?thesis using assms
    by (auto simp: OnStateChange not_listening_def callbacks_onStateChange)
next
  case (OffStateChange mid' cb)
  show ?thesis using assms(1) callbacks_offStateChange [of mid mid' cb s]
    by (auto simp: OffStateChange not_listening_def)
next
  case (Reset mid' clearHistory)
  show ?thesis using assms(1)
    by (simp add: Reset not_listening_def callbacks_reset)
next
  case (UnregisterMachine mid')
  show ?thesis using assms(1) callbacks_unregisterMachine [of mid mid' s]
    by (auto simp: UnregisterMachine not_listening_def)
qed

lemma run_call_count:
  assumes "not_listening mid i s"
    and "\<forall>cb. OnStateChange mid cb \<in> set cs \<longrightarrow> lid cb \<noteq> i"
  shows "call_count mid i (run cs s) = call_count mid i s"
  using assms
proof (induction cs arbitrary: s)
  case Nil
  then show ?case by simp
next
  case (Cons c cs)
  have n: "not_listening mid i (exec c s)"
    using Cons.prems by (auto intro: exec_not_listening)
  have "call_count mid i (run cs (exec c s)) = call_count mid i (exec c s)"
    using Cons.prems(2) by (intro Cons.IH [OF n]) auto
  then show ?case
    by (simp add: exec_call_count [OF Cons.prems(1)])
qed

lemma map_fst_table_set:
  "map fst (table_set k v tbl) =
     (if k \<in> set (map fst tbl) then map fst tbl else map fst tbl @ [k])"
  by (induction tbl) (force simp: image_iff)+

lemma keys_table_set: "fst ` set (table_set k v tbl) = insert k (fst ` set tbl)"
proof -
  have "set (map fst (table_set k v tbl)) = insert k (set (map fst tbl))"
    unfolding map_fst_table_set by auto
  then show ?thesis by simp
qed

lemma keys_table_events:
  "fst ` set (table_events frm ts tbl) = fst ` set tbl \<union> (\<lambda>e. key_of frm (fst e)) ` set ts"
proof (induction ts arbitrary: tbl)
  case Nil
  show ?case by (simp add: table_events_def)
next
  case (Cons a ts)
  have "table_events frm (a # ts) tbl = table_events frm ts (table_set (key_of frm (fst a)) (snd a) tbl)"
    by (cases a) (simp add: table_events_def)
  then show ?case
    by (auto simp: Cons.IH keys_table_set)
qed

lemma keys_table_all:
  "fst ` set (table_all cfg tbl) =
     fst ` set tbl \<union> (\<Union>p \<in> set cfg. (\<lambda>e. key_of (fst p) (fst e)) ` set (snd p))"
proof (induction cfg arbitrary: tbl)
  case Nil
  show ?case by (simp add: table_all_def)
next
  case (Cons a cfg)
  have "table_all (a # cfg) tbl = table_all cfg (table_events (fst a) (snd a) tbl)"
    by (cases a) (simp add: table_all_def)
  then show ?case
    by (auto simp: Cons.IH keys_table_events)
qed

lemma keys_config_table:
  "fst ` set (config_table config) =
     (\<Union>p \<in> set (case cfg_transitions config of None \<Rightarrow> [] | Some ts \<Rightarrow> ts).
        (\<lambda>e. key_of (fst p) (fst e)) ` set (snd p))"
proof (cases "cfg_transitions config")
  case None
  then show ?thesis by (simp add: config_table_def)
next
  case (Some ts)
  then show ?thesis by (simp add: config_table_def keys_table_all)
qed

text \<open>
  Claim C6: registering an identifier that is registered already replaces all three
  entries. The machine stored and returned has the identifier, the initial state of the
  new configuration (\<open>idle\<close> when it has none or an empty one), the states and the
  context of the new configuration (empty when it has none), an empty history and the
  time of the call. The table is the one built from the new configuration alone, and
  its keys are exactly the keys of the pairs that the configuration lists. The callbacks
  are the empty list, and in every later sequence of calls that does not register a
  listener of identity \<open>i\<close> for this machine again, that listener is never called for it.
\<close>

theorem reregistration_replaces:
  assumes "machines s mid \<noteq> None"
  shows "\<exists>m' s'. registerMachine mid config now s = Inr (m', s')
     \<and> machines s' mid = Some m'
     \<and> machineId m' = mid
     \<and> currentState m' =
         (case initialState config of
            None \<Rightarrow> ''idle''
          | Some i \<Rightarrow> if i = [] then ''idle'' else i)
     \<and> states m' = (case cfg_states config of None \<Rightarrow> Map.empty | Some st \<Rightarrow> st)
     \<and> ctx m' = (case cfg_context config of None \<Rightarrow> Map.empty | Some c \<Rightarrow> c)
     \<and> history m' = []
     \<and> created m' = now
     \<and> transitions s' mid = Some (config_table config)
     \<and> fst ` set (config_table config) =
         (\<Union>p \<in> set (case cfg_transitions config of None \<Rightarrow> [] | Some ts \<Rightarrow> ts).
            (\<lambda>e. key_of (fst p) (fst e)) ` set (snd p))
     \<and> stateCallbacks s' mid = Some []
     \<and> (\<forall>cs i. (\<forall>cb. OnStateChange mid cb \<in> set cs \<longrightarrow> lid cb \<noteq> i) \<longrightarrow>
           call_count mid i (run cs s') = call_count mid i s)"
proof -
  from registerMachine_eq [of mid config now s] obtain s' where
    s': "registerMachine mid config now s = Inr (new_machine mid config now, s')"
    "machines s' = (machines s)(mid \<mapsto> new_machine mid config now)"
    "transitions s' = (transitions s)(mid \<mapsto> config_table config)"
    "stateCallbacks s' = (stateCallbacks s)(mid \<mapsto> [])"
    "calls s' = calls s" by blast
  let ?m = "new_machine mid config now"
  have f: "machineId ?m = mid"
    "currentState ?m =
       (case initialState config of None \<Rightarrow> ''idle'' | Some i \<Rightarrow> if i = [] then ''idle'' else i)"
    "states ?m = (case cfg_states config of None \<Rightarrow> Map.empty | Some st \<Rightarrow> st)"
    "ctx ?m = (case cfg_context config of None \<Rightarrow> Map.empty | Some c \<Rightarrow> c)"
    "history ?m = []" "created ?m = now"
    by (simp_all add: new_machine_def or_else_def)
  have n: "\<And>i. not_listening mid i s'"
    by (simp add: not_listening_def callbacks_of_def s'(4))
  have l: "\<forall>cs i. (\<forall>cb. OnStateChange mid cb \<in> set cs \<longrightarrow> lid cb \<noteq> i) \<longrightarrow>
           call_count mid i (run cs s') = call_count mid i s"
    using run_call_count [OF n] call_count_same [OF s'(5)] by simp
  have m: "machines s' mid = Some ?m" by (simp add: s'(2))
  have t: "transitions s' mid = Some (config_table config)" by (simp add: s'(3))
  have c: "stateCallbacks s' mid = Some []" by (simp add: s'(4))
  show ?thesis
    using s'(1) m f t keys_config_table [of config] c l by blast
qed

theorem reregistration_replaces_witness:
  "machines checkout ''checkout'' \<noteq> None \<and>
   getContext ''checkout'' checkout = Some [''items'' \<mapsto> 2, ''a'' \<mapsto> 0] \<and>
   stateCallbacks checkout ''checkout'' = Some [counter] \<and>
   (\<exists>m' s'. registerMachine ''checkout'' gate_config 5 checkout = Inr (m', s')
      \<and> machines s' ''checkout'' = Some m'
      \<and> machineId m' = ''checkout''
      \<and> currentState m' = ''open''
      \<and> states m' = [''open'' \<mapsto> 0, ''closed'' \<mapsto> 1]
      \<and> ctx m' = [''count'' \<mapsto> 3]
      \<and> ctx m' ''items'' = None
      \<and> history m' = []
      \<and> created m' = 5
      \<and> transitions s' ''checkout'' = Some [(''open:CLOSE'', Target ''closed'')]
      \<and> stateCallbacks s' ''checkout'' = Some []
      \<and> call_count ''checkout'' 2
           (run [Send ''checkout'' ''CLOSE'' None 6, Send ''checkout'' ''PAY'' (Some 10) 7] s') = 0)"
proof -
  have h: "machines checkout ''checkout'' \<noteq> None"
    by (simp add: checkout_def)
  have g: "getContext ''checkout'' checkout = Some [''items'' \<mapsto> 2, ''a'' \<mapsto> 0]"
    by (simp add: getContext_def checkout_def checkout_machine_def)
  have cbs: "stateCallbacks checkout ''checkout'' = Some [counter]"
    by (simp add: checkout_def)
  let ?cs = "[Send ''checkout'' ''CLOSE'' None 6, Send ''checkout'' ''PAY'' (Some 10) 7]
               :: (nat, nat) op list"
  from reregistration_replaces [OF h, of gate_config 5]
  obtain m' s' where s': "registerMachine ''checkout'' gate_config 5 checkout = Inr (m', s')"
    "machines s' ''checkout'' = Some m'"
    "machineId m' = ''checkout''"
    "currentState m' =
       (case initialState gate_config of None \<Rightarrow> ''idle''
        | Some i \<Rightarrow> if i = [] then ''idle'' else i)"
    "states m' = (case cfg_states gate_config of None \<Rightarrow> Map.empty | Some st \<Rightarrow> st)"
    "ctx m' = (case cfg_context gate_config of None \<Rightarrow> Map.empty | Some c \<Rightarrow> c)"
    "history m' = []"
    "created m' = 5"
    "transitions s' ''checkout'' = Some (config_table gate_config)"
    "stateCallbacks s' ''checkout'' = Some []"
    "\<forall>cs i. (\<forall>cb. OnStateChange ''checkout'' cb \<in> set cs \<longrightarrow> lid cb \<noteq> i) \<longrightarrow>
        call_count ''checkout'' i (run cs s') = call_count ''checkout'' i checkout"
    by blast
  have n: "\<forall>cb. OnStateChange ''checkout'' cb \<in> set ?cs \<longrightarrow> lid cb \<noteq> 2"
    by simp
  have z: "call_count ''checkout'' 2 checkout = 0"
    by (simp add: call_count_def checkout_def)
  have c: "call_count ''checkout'' 2 (run ?cs s') = 0"
    using s'(11) n z by metis
  have t: "config_table gate_config = [(''open:CLOSE'', Target ''closed'')]"
    by (simp add: config_table_def gate_config_def table_all_def table_events_def key_of_def)
  have st: "currentState m' = ''open''"
    by (simp add: s'(4) gate_config_def)
  have ss: "states m' = [''open'' \<mapsto> 0, ''closed'' \<mapsto> 1]"
    by (simp add: s'(5) gate_config_def)
  have cx: "ctx m' = [''count'' \<mapsto> 3]"
    by (simp add: s'(6) gate_config_def)
  have ci: "ctx m' ''items'' = None"
    by (simp add: cx)
  show ?thesis
    using h g cbs s'(1,2,3,7,8,10) s'(9) [unfolded t] st ss cx ci c by blast
qed

subsection \<open>The state that \<open>reset\<close> returns to\<close>

lemma reset_machine:
  "machines s mid = Some m \<Longrightarrow>
   machines (reset mid clearHistory s) mid =
     Some (m\<lparr>currentState := first_state (transitions s mid), ctx := Map.empty,
            history := (if clearHistory then [] else history m)\<rparr>)"
  by (simp add: reset_def Let_def)

lemma first_state_empty: "first_state (Some []) = ''idle''"
  by (simp add: first_state_def)

lemma split_first_key_of:
  "CHR '':'' \<notin> set frm \<Longrightarrow> split_first (key_of frm ev) = frm"
  by (simp add: split_first_def key_of_def takeWhile_append)

lemma first_state_key_of:
  "CHR '':'' \<notin> set frm \<Longrightarrow> first_state (Some ((key_of frm ev, t) # rest)) = frm"
  by (simp add: first_state_def split_first_key_of)

text \<open>
  Claim C8 says that \<open>reset\<close> sets the current state to the source state of the first
  transition of the table. The two lemmas above give that for a source state without a
  colon, and \<open>idle\<close> for an empty table, with the context emptied and the history kept
  unless \<open>clearHistory\<close> is set. \<open>reset\<close> reads the state back out of the key by
  \<open>split(':')\<close>, though: a machine whose only transition leaves \<open>step:1\<close> is reset to
  \<open>step\<close>, which is no state of the machine.
\<close>

theorem reset_colon_state:
  "getState ''wizard''
     (run [RegisterMachine ''wizard'' wizard_config 0, Reset ''wizard'' False]
          (new_adapter (0 :: nat))) = Some ''step''"
  by (simp add: registerMachine_def Let_def new_adapter_def wizard_config_def
      new_machine_def or_else_def registerTransition_def key_of_def reset_def
      first_state_def split_first_def getState_def)

subsection \<open>The key of a transition\<close>

lemma table_get_set:
  "table_get (table_set k v tbl) k' = (if k' = k then Some v else table_get tbl k')"
  by (induction tbl) (auto simp: table_get_def)

lemma key_of_inject:
  assumes "CHR '':'' \<notin> set f1" and "CHR '':'' \<notin> set f2"
  shows "(key_of f1 e1 = key_of f2 e2) = (f1 = f2 \<and> e1 = e2)"
proof
  assume k: "key_of f1 e1 = key_of f2 e2"
  then have "split_first (key_of f1 e1) = split_first (key_of f2 e2)" by simp
  then have "f1 = f2" using assms by (simp add: split_first_key_of)
  with k show "f1 = f2 \<and> e1 = e2" by (simp add: key_of_def)
qed simp

text \<open>
  Claim C9 says that two distinct pairs of a source state and an event are two distinct
  entries of the table, also for labels with a colon. \<open>registerTransition\<close> writes one
  entry, under the key of the pair (\<open>table_get_set\<close>), and the key separates the pairs
  whose source states have no colon (\<open>key_of_inject\<close>). With a colon the keys collide:
  the pairs \<open>(order:new, paid)\<close> and \<open>(order, new:paid)\<close> share one entry, the second
  registration overwrites the first, and \<open>paid\<close> in state \<open>order:new\<close> leads to the
  target registered for the other pair.
\<close>

theorem key_collision:
  "key_of ''order:new'' ''paid'' = key_of ''order'' ''new:paid'' \<and>
   transitions
     (run [RegisterMachine ''order'' order_config 0,
           RegisterTransition ''order'' ''order:new'' ''paid'' (Target ''shipping''),
           RegisterTransition ''order'' ''order'' ''new:paid'' (Target ''refund'')]
          (new_adapter (0 :: nat))) ''order'' =
     Some [(''order:new:paid'', Target ''refund'')] \<and>
   getState ''order''
     (run [RegisterMachine ''order'' order_config 0,
           RegisterTransition ''order'' ''order:new'' ''paid'' (Target ''shipping''),
           RegisterTransition ''order'' ''order'' ''new:paid'' (Target ''refund''),
           Send ''order'' ''paid'' None 1]
          (new_adapter (0 :: nat))) = Some ''refund''"
  by (simp add: registerMachine_def Let_def new_adapter_def order_config_def
      new_machine_def or_else_def registerTransition_def key_of_def send_def table_get_def
      truthy_def resolve_def notifyStateChange_def getState_def)

subsection \<open>Reading the history\<close>

lemma getHistory_unknown: "machines s mid = None \<Longrightarrow> getHistory mid limit s = []"
  by (simp add: getHistory_def)

lemma getHistory_default: "getHistory mid None s = getHistory mid (Some 10) s"
  by (simp add: getHistory_def split: option.splits)

lemma getHistory_positive:
  assumes "machines s mid = Some m" and "0 < l"
  shows "getHistory mid (Some l) s = drop (length (history m) - nat l) (history m)"
    and "length (getHistory mid (Some l) s) = min (nat l) (length (history m))"
proof -
  have "slice (- l) (history m) = drop (length (history m) - nat l) (history m)"
    using slice_neg [of "nat l" "history m"] assms(2) by simp
  then show "getHistory mid (Some l) s = drop (length (history m) - nat l) (history m)"
    using assms(1) by (simp add: getHistory_def)
  then show "length (getHistory mid (Some l) s) = min (nat l) (length (history m))"
    by simp
qed

text \<open>
  Claim C10 says that \<open>getHistory\<close> returns the \<open>min(limit, length)\<close> most recent entries
  for every natural limit, zero included. For a positive limit it does, with 10 for an
  omitted limit and the empty list for an unknown machine (the lemmas above). For the
  limit 0 the start \<open>-0\<close> of the slice is the start of the array: all hundred entries of
  a full history come back where the claim has none.
\<close>

theorem getHistory_zero_returns_all:
  "getHistory ''turnstile'' (Some 0) busy = replicate 100 old_entry \<and>
   length (getHistory ''turnstile'' (Some 0) busy) = 100"
  by (simp add: getHistory_def busy_def busy_machine_def turnstile_def slice_def)

end
